theory Spec2Isabelle
  imports Main
begin

section \<open>The image-enabled Firestore vector store\<close>

text \<open>
  A shallow embedding of \<^verbatim>\<open>ImageEnabledFirestoreVectorStore.add_images\<close>
  (\<^verbatim>\<open>image_enabled_firestore_vectorstore.py\<close>). The method validates the lengths of
  its arguments, then walks over the image locators: it embeds each image, obtains a
  document handle, builds the record and stages a merge-write into a batch; finally it
  commits the batch and returns the identifiers.
\<close>

subsection \<open>Data\<close>

type_synonym locator = string
type_synonym doc_id = string
type_synonym field_name = string

text \<open>
  The values the method writes into a document field: Python's \<^verbatim>\<open>None\<close>, a string,
  \<^verbatim>\<open>Vector(image_embs)\<close> and a metadata \<^verbatim>\<open>dict\<close>. The embedding \<open>'v\<close> and the
  metadata mapping \<open>'m\<close> are opaque to the method.
\<close>

datatype ('v, 'm) field_value = Null | Text string | Vector 'v | Metadata 'm

text \<open>A Python \<^verbatim>\<open>dict\<close> from field names to values; also the fields of a stored document.\<close>

type_synonym ('v, 'm) fields = "field_name \<rightharpoonup> ('v, 'm) field_value"

text \<open>
  \<^verbatim>\<open>image_paths: Iterable[str]\<close>. An iterable is either a re-iterable sequence (a list,
  a tuple), which yields its items at every iteration, or a one-shot iterator (a generator,
  \<^verbatim>\<open>iter(xs)\<close>), which yields only the items not yet consumed.
\<close>

datatype 'a iterable = Sequence "'a list" | Iterator "'a list"

text \<open>The items one iteration yields, and the iterable once that iteration has run to its end.\<close>

fun yields :: "'a iterable \<Rightarrow> 'a list" where
  "yields (Sequence xs) = xs"
| "yields (Iterator xs) = xs"

fun exhausted :: "'a iterable \<Rightarrow> 'a iterable" where
  "exhausted (Sequence xs) = Sequence xs"
| "exhausted (Iterator xs) = Iterator []"

text \<open>Python's \<^verbatim>\<open>list(it)\<close>: the list of the items, and the iterable afterwards.\<close>

definition list_py :: "'a iterable \<Rightarrow> 'a list \<times> 'a iterable" where
  "list_py it = (yields it, exhausted it)"

datatype error = ValueError string | IndexError

text \<open>\<^verbatim>\<open>xs[i]\<close> for an index \<open>i \<ge> 0\<close>: out of range raises.\<close>

definition subscript :: "'a list \<Rightarrow> nat \<Rightarrow> error + 'a" where
  "subscript xs i = (if i < length xs then Inr (xs ! i) else Inl IndexError)"

text \<open>
  The truth value of an \<^verbatim>\<open>Optional[List[...] ]\<close> argument: \<^verbatim>\<open>None\<close> and the empty list
  are both false.
\<close>

fun truthy :: "'a list option \<Rightarrow> bool" where
  "truthy None = False"
| "truthy (Some xs) = (xs \<noteq> [])"

text \<open>
  The list behind such an argument. The method subscripts the argument and takes its
  \<^verbatim>\<open>len\<close> only where it is truthy, so the value at \<^verbatim>\<open>None\<close> is never used.
\<close>

fun items :: "'a list option \<Rightarrow> 'a list" where
  "items None = []"
| "items (Some xs) = xs"

definition len :: "'a list option \<Rightarrow> nat" where
  "len xs = length (items xs)"

text \<open>
  The store object \<^verbatim>\<open>self\<close>: the three configured field names, and its two collaborators
  as far as the method uses them: the embedding service's \<^verbatim>\<open>embed_image\<close>, and the
  identifier that the database client gives to the \<open>k\<close>-th document handle requested
  without an id (\<^verbatim>\<open>self.collection.document(None)\<close>).
\<close>

record 'v store =
  content_field :: field_name
  metadata_field :: field_name
  embedding_field :: field_name
  embed_image :: "locator \<Rightarrow> 'v"
  auto_id :: "nat \<Rightarrow> doc_id"

text \<open>The calls the method makes to its collaborators.\<close>

datatype ('v, 'm) call =
    Embed_Image locator
  | Batch_Set doc_id "('v, 'm) fields"
  | Batch_Commit

text \<open>
  The world outside the method: the documents of the collection, the number of identifiers
  the client has generated so far, and the calls made, oldest first.
\<close>

record ('v, 'm) world =
  documents :: "doc_id \<rightharpoonup> ('v, 'm) fields"
  generated :: nat
  calls :: "('v, 'm) call list"

subsection \<open>The database client\<close>

text \<open>
  Modelled from the spec: \<^verbatim>\<open>self.collection.document(doc_id)\<close> is library code. It gives
  a handle with the given id, or with a newly generated one when \<^verbatim>\<open>doc_id\<close> is
  \<^verbatim>\<open>None\<close> (the spec: a document handle with or without a given id, the identifier
  generated where not supplied).
\<close>

definition document :: "'v store \<Rightarrow> doc_id option \<Rightarrow> ('v, 'm) world \<Rightarrow> doc_id \<times> ('v, 'm) world" where
  "document self doc_id w =
     (case doc_id of
        Some d \<Rightarrow> (d, w)
      | None \<Rightarrow> (auto_id self (generated w), w\<lparr>generated := Suc (generated w)\<rparr>))"

text \<open>
  Modelled from the spec: the database client's merge-write (\<^verbatim>\<open>set(doc, data, merge=True)\<close>)
  is library code. The spec gives its semantics: existing fields of a pre-existing document
  at that id are preserved except for the fields explicitly set.
\<close>

definition merge_write :: "doc_id \<times> ('v, 'm) fields \<Rightarrow> (doc_id \<rightharpoonup> ('v, 'm) fields) \<Rightarrow> (doc_id \<rightharpoonup> ('v, 'm) fields)" where
  "merge_write wr docs =
     (case wr of (d, data) \<Rightarrow>
        docs(d \<mapsto> (case docs d of None \<Rightarrow> data | Some old \<Rightarrow> old ++ data)))"

text \<open>
  Modelled from the spec: \<^verbatim>\<open>db_batch.commit()\<close> is library code; it applies the staged
  writes, in the order they were staged, in one request.
\<close>

definition commit :: "(doc_id \<times> ('v, 'm) fields) list \<Rightarrow> ('v, 'm) world \<Rightarrow> ('v, 'm) world" where
  "commit db_batch w =
     w\<lparr>documents := fold merge_write db_batch (documents w),
       calls := calls w @ [Batch_Commit]\<rparr>"

subsection \<open>The method\<close>

text \<open>
  The \<^verbatim>\<open>dict\<close> display of the loop body. Its three entries are stored from left to right,
  so a later entry replaces an earlier one under the same key.
\<close>

definition data_of :: "'v store \<Rightarrow> 'v \<Rightarrow> ('v, 'm) field_value \<Rightarrow> ('v, 'm) fields" where
  "data_of self image_embs md =
     (Map.empty(content_field self \<mapsto> Text [],
                embedding_field self \<mapsto> Vector image_embs,
                metadata_field self \<mapsto> md))"

text \<open>
  The loop \<^verbatim>\<open>for i, image_path in enumerate(image_paths)\<close>, over the pairs that
  \<^verbatim>\<open>enumerate\<close> yields, with the locals \<^verbatim>\<open>_ids\<close> and \<^verbatim>\<open>db_batch\<close>. An exception leaves
  the loop with the world as it is at that point.
\<close>

fun add_images_loop ::
  "'v store \<Rightarrow> 'm list option \<Rightarrow> doc_id list option \<Rightarrow> (nat \<times> locator) list \<Rightarrow>
   doc_id list \<times> (doc_id \<times> ('v, 'm) fields) list \<Rightarrow> ('v, 'm) world \<Rightarrow>
   (error + doc_id list \<times> (doc_id \<times> ('v, 'm) fields) list) \<times> ('v, 'm) world" where
  "add_images_loop self metadatas ids [] (ids_acc, db_batch) w = (Inr (ids_acc, db_batch), w)"
| "add_images_loop self metadatas ids ((i, image_path) # rest) (ids_acc, db_batch) w =
     (let image_embs = embed_image self image_path;
          w1 = w\<lparr>calls := calls w @ [Embed_Image image_path]\<rparr>
      in case (if truthy ids then map_sum id Some (subscript (items ids) i) else Inr None) of
           Inl e \<Rightarrow> (Inl e, w1)
         | Inr doc_id \<Rightarrow>
             (case document self doc_id w1 of (doc, w2) \<Rightarrow>
                (case (if truthy metadatas then map_sum id Metadata (subscript (items metadatas) i)
                       else Inr Null) of
                   Inl e \<Rightarrow> (Inl e, w2)
                 | Inr md \<Rightarrow>
                     (let data = data_of self image_embs md;
                          w3 = w2\<lparr>calls := calls w2 @ [Batch_Set doc data]\<rparr>
                      in add_images_loop self metadatas ids rest
                           (ids_acc @ [doc], db_batch @ [(doc, data)]) w3))))"

text \<open>
  \<^verbatim>\<open>add_images(self, image_paths, metadatas, ids, **kwargs)\<close>. The result is the
  exception raised or the list returned, together with the world afterwards.
  \<^verbatim>\<open>len(list(image_paths))\<close> iterates \<^verbatim>\<open>image_paths\<close> to its end; the loop then
  iterates the same object again.
\<close>

definition add_images ::
  "'v store \<Rightarrow> locator iterable \<Rightarrow> 'm list option \<Rightarrow> doc_id list option \<Rightarrow> 'k \<Rightarrow>
   ('v, 'm) world \<Rightarrow> (error + doc_id list) \<times> ('v, 'm) world" where
  "add_images self image_paths metadatas ids kwargs w =
     (case list_py image_paths of (images, image_paths') \<Rightarrow>
        (let images_len = length images;
             ids_len_match = (\<not> truthy ids \<or> len ids = images_len);
             metadatas_len_match = (\<not> truthy metadatas \<or> len metadatas = images_len)
         in if images_len = 0 then
              (Inl (ValueError ''No images provided to add to the vector store.''), w)
            else if \<not> metadatas_len_match then
              (Inl (ValueError
                 ''The length of metadatas must be the same as the length of images or zero.''), w)
            else if \<not> ids_len_match then
              (Inl (ValueError
                 ''The length of ids must be the same as the length of images or zero.''), w)
            else
              (case add_images_loop self metadatas ids (enumerate 0 (yields image_paths'))
                      ([], []) w of
                 (Inl e, w') \<Rightarrow> (Inl e, w')
               | (Inr (ids_acc, db_batch), w') \<Rightarrow> (Inr ids_acc, commit db_batch w'))))"

text \<open>
  Observations: the calls made between an earlier and a later world, and among some calls
  the embedding calls, the staged writes (both in call order) and the number of commits.
\<close>

definition new_calls :: "('v, 'm) world \<Rightarrow> ('v, 'm) world \<Rightarrow> ('v, 'm) call list" where
  "new_calls w w' = drop (length (calls w)) (calls w')"

fun embed_calls :: "('v, 'm) call list \<Rightarrow> locator list" where
  "embed_calls [] = []"
| "embed_calls (Embed_Image p # cs) = p # embed_calls cs"
| "embed_calls (_ # cs) = embed_calls cs"

fun staged :: "('v, 'm) call list \<Rightarrow> (doc_id \<times> ('v, 'm) fields) list" where
  "staged [] = []"
| "staged (Batch_Set d data # cs) = (d, data) # staged cs"
| "staged (_ # cs) = staged cs"

fun commits :: "('v, 'm) call list \<Rightarrow> nat" where
  "commits [] = 0"
| "commits (Batch_Commit # cs) = Suc (commits cs)"
| "commits (_ # cs) = commits cs"

subsection \<open>What a run over a sequence stages\<close>

text \<open>
  The lengths that pass the three checks of the method, for \<open>n\<close> images.
\<close>

definition valid_lengths :: "nat \<Rightarrow> 'm list option \<Rightarrow> doc_id list option \<Rightarrow> bool" where
  "valid_lengths n metadatas ids =
     (n \<noteq> 0 \<and> (truthy metadatas \<longrightarrow> len metadatas = n) \<and> (truthy ids \<longrightarrow> len ids = n))"

text \<open>
  The identifier of the \<open>j\<close>-th handle the loop obtains when it starts at index \<open>k\<close> with
  \<open>g\<close> identifiers generated so far, the record built for index \<open>i\<close> and locator \<open>p\<close>,
  and the \<open>j\<close>-th write of such a run over the locators \<open>ps\<close>.
\<close>

definition pick :: "'v store \<Rightarrow> doc_id list option \<Rightarrow> nat \<Rightarrow> nat \<Rightarrow> nat \<Rightarrow> doc_id" where
  "pick self ids k g j = (if truthy ids then items ids ! (k + j) else auto_id self (g + j))"

definition record_at :: "'v store \<Rightarrow> 'm list option \<Rightarrow> nat \<Rightarrow> locator \<Rightarrow> ('v, 'm) fields" where
  "record_at self metadatas i p =
     data_of self (embed_image self p)
       (if truthy metadatas then Metadata (items metadatas ! i) else Null)"

definition write_at ::
  "'v store \<Rightarrow> 'm list option \<Rightarrow> doc_id list option \<Rightarrow> nat \<Rightarrow> nat \<Rightarrow> locator list \<Rightarrow> nat \<Rightarrow>
   doc_id \<times> ('v, 'm) fields" where
  "write_at self metadatas ids k g ps j =
     (pick self ids k g j, record_at self metadatas (k + j) (ps ! j))"

definition calls_at ::
  "'v store \<Rightarrow> 'm list option \<Rightarrow> doc_id list option \<Rightarrow> nat \<Rightarrow> nat \<Rightarrow> locator list \<Rightarrow> nat \<Rightarrow>
   ('v, 'm) call list" where
  "calls_at self metadatas ids k g ps j =
     [Embed_Image (ps ! j),
      Batch_Set (pick self ids k g j) (record_at self metadatas (k + j) (ps ! j))]"

subsection \<open>A store and worlds to run the method on\<close>

text \<open>
  A store with the default field names, an embedding service that answers with the length
  of the locator, and a client that generates the identifiers \<open>a\<close>, \<open>aa\<close>, \<open>aaa\<close>, ...
\<close>

definition demo_store :: "nat list store" where
  "demo_store =
     \<lparr>content_field = ''content'', metadata_field = ''metadata'',
      embedding_field = ''embedding'', embed_image = (\<lambda>p. [length p]),
      auto_id = (\<lambda>k. replicate (Suc k) CHR ''a'')\<rparr>"

definition demo_world :: "(nat list, (string \<times> string) list) world" where
  "demo_world = \<lparr>documents = Map.empty, generated = 0, calls = []\<rparr>"

text \<open>
  Two more observations: the value of a field of a stored document (\<open>None\<close> when the
  document or the field is missing), and the value each staged write gives to a field.
\<close>

definition field_of :: "('v, 'm) world \<Rightarrow> doc_id \<Rightarrow> field_name \<Rightarrow> ('v, 'm) field_value option" where
  "field_of w d f = (case documents w d of None \<Rightarrow> None | Some doc \<Rightarrow> doc f)"

definition staged_field :: "field_name \<Rightarrow> ('v, 'm) call list \<Rightarrow> ('v, 'm) field_value option list" where
  "staged_field f cs = map (\<lambda>wr. snd wr f) (staged cs)"

text \<open>
  A world whose collection already holds a document \<open>d1\<close> with a metadata field and
  a field of its own.
\<close>

definition demo_world_d1 :: "(nat list, (string \<times> string) list) world" where
  "demo_world_d1 =
     \<lparr>documents = [''d1'' \<mapsto> [''metadata'' \<mapsto> Metadata [(''k'', ''v'')], ''owner'' \<mapsto> Text ''me''] ],
      generated = 0, calls = []\<rparr>"

section \<open>Properties\<close>

subsection \<open>The loop and the method in closed form\<close>

lemma add_images_loop_closed:
  assumes "truthy ids \<longrightarrow> k + length ps \<le> len ids"
      and "truthy metadatas \<longrightarrow> k + length ps \<le> len metadatas"
  shows "add_images_loop self metadatas ids (enumerate k ps) (ia, ba) w =
    (Inr (ia @ map (pick self ids k (generated w)) [0..<length ps],
          ba @ map (write_at self metadatas ids k (generated w) ps) [0..<length ps]),
     w\<lparr>generated := generated w + (if truthy ids then 0 else length ps),
       calls := calls w @
         concat (map (calls_at self metadatas ids k (generated w) ps) [0..<length ps])\<rparr>)"
  using assms
proof (induction ps arbitrary: k ia ba w)
  case Nil
  then show ?case by simp
next
  case (Cons p ps)
  have a: "truthy ids \<longrightarrow> Suc k + length ps \<le> len ids"
    using Cons.prems by simp
  have b: "truthy metadatas \<longrightarrow> Suc k + length ps \<le> len metadatas"
    using Cons.prems by simp
  note IH = Cons.IH[OF a b]
  note defs = subscript_def document_def map_upt_Suc pick_def write_at_def record_at_def
    calls_at_def Let_def
  show ?case
  proof (cases "truthy ids")
    case True
    then have k: "k < length (items ids)"
      using Cons.prems(1) by (simp add: len_def)
    show ?thesis
    proof (cases "truthy metadatas")
      case T2: True
      then have k2: "k < length (items metadatas)"
        using Cons.prems(2) by (simp add: len_def)
      show ?thesis using True T2 k k2
        by (simp add: IH defs del: upt_Suc)
    next
      case F2: False
      show ?thesis using True F2 k
        by (simp add: IH defs del: upt_Suc)
    qed
  next
    case False
    show ?thesis
    proof (cases "truthy metadatas")
      case T2: True
      then have k2: "k < length (items metadatas)"
        using Cons.prems(2) by (simp add: len_def)
      show ?thesis using False T2 k2
        by (simp add: IH defs del: upt_Suc)
    next
      case F2: False
      show ?thesis using False F2
        by (simp add: IH defs del: upt_Suc)
    qed
  qed
qed

lemma add_images_empty:
  "yields image_paths = [] \<Longrightarrow>
   add_images self image_paths metadatas ids kwargs w =
     (Inl (ValueError ''No images provided to add to the vector store.''), w)"
  by (simp add: add_images_def list_py_def)

lemma add_images_metadatas_mismatch:
  "yields image_paths \<noteq> [] \<Longrightarrow> truthy metadatas \<Longrightarrow>
   len metadatas \<noteq> length (yields image_paths) \<Longrightarrow>
   add_images self image_paths metadatas ids kwargs w =
     (Inl (ValueError
        ''The length of metadatas must be the same as the length of images or zero.''), w)"
  by (simp add: add_images_def list_py_def)

lemma add_images_ids_mismatch:
  "yields image_paths \<noteq> [] \<Longrightarrow>
   truthy metadatas \<longrightarrow> len metadatas = length (yields image_paths) \<Longrightarrow>
   truthy ids \<Longrightarrow> len ids \<noteq> length (yields image_paths) \<Longrightarrow>
   add_images self image_paths metadatas ids kwargs w =
     (Inl (ValueError
        ''The length of ids must be the same as the length of images or zero.''), w)"
  by (auto simp add: add_images_def list_py_def)

lemma valid_lengths_checks:
  assumes "valid_lengths (length ps) metadatas ids"
  shows "ps \<noteq> []" and "\<not> (truthy metadatas \<and> len metadatas \<noteq> length ps)"
    and "\<not> (truthy ids \<and> len ids \<noteq> length ps)"
  using assms by (auto simp add: valid_lengths_def)

lemma add_images_sequence:
  assumes "valid_lengths (length ps) metadatas ids"
  shows "add_images self (Sequence ps) metadatas ids kwargs w =
    (Inr (map (pick self ids 0 (generated w)) [0..<length ps]),
     commit (map (write_at self metadatas ids 0 (generated w) ps) [0..<length ps])
       (w\<lparr>generated := generated w + (if truthy ids then 0 else length ps),
          calls := calls w @
            concat (map (calls_at self metadatas ids 0 (generated w) ps) [0..<length ps])\<rparr>))"
proof -
  have a: "truthy ids \<longrightarrow> 0 + length ps \<le> len ids"
   and b: "truthy metadatas \<longrightarrow> 0 + length ps \<le> len metadatas"
    using assms by (simp_all add: valid_lengths_def)
  show ?thesis
    unfolding add_images_def list_py_def using valid_lengths_checks[OF assms]
    by (simp add: add_images_loop_closed[OF a b])
qed

lemma add_images_iterator:
  assumes "valid_lengths (length ps) metadatas ids"
  shows "add_images self (Iterator ps) metadatas ids kwargs w = (Inr [], commit [] w)"
  unfolding add_images_def list_py_def using valid_lengths_checks[OF assms] by simp

lemma add_images_invalid:
  assumes "\<not> valid_lengths (length (yields image_paths)) metadatas ids"
  shows "\<exists>msg. add_images self image_paths metadatas ids kwargs w = (Inl (ValueError msg), w)"
proof (cases "yields image_paths = []")
  case True
  then show ?thesis by (simp add: add_images_empty)
next
  case ne: False
  show ?thesis
  proof (cases "truthy metadatas \<and> len metadatas \<noteq> length (yields image_paths)")
    case True
    then show ?thesis using ne by (simp add: add_images_metadatas_mismatch)
  next
    case False
    then have m: "truthy metadatas \<longrightarrow> len metadatas = length (yields image_paths)"
      by blast
    have "truthy ids" "len ids \<noteq> length (yields image_paths)"
      using assms ne m by (auto simp add: valid_lengths_def)
    then show ?thesis using ne m by (simp add: add_images_ids_mismatch)
  qed
qed

lemma add_images_valid_returns:
  assumes "valid_lengths (length (yields image_paths)) metadatas ids"
  shows "\<exists>out. fst (add_images self image_paths metadatas ids kwargs w) = Inr out"
proof (cases image_paths)
  case (Sequence ps)
  then show ?thesis using assms by (simp add: add_images_sequence)
next
  case (Iterator ps)
  then show ?thesis using assms by (simp add: add_images_iterator)
qed

subsection \<open>Calls, staged writes and the merge of a batch\<close>

lemma staged_append: "staged (xs @ ys) = staged xs @ staged ys"
  by (induction xs rule: staged.induct) simp_all

lemma embed_calls_append: "embed_calls (xs @ ys) = embed_calls xs @ embed_calls ys"
  by (induction xs rule: embed_calls.induct) simp_all

lemma commits_append: "commits (xs @ ys) = commits xs + commits ys"
  by (induction xs rule: commits.induct) simp_all

lemma staged_calls_at:
  "staged (concat (map (calls_at self metadatas ids k g ps) js)) =
   map (write_at self metadatas ids k g ps) js"
  by (induction js) (simp_all add: calls_at_def write_at_def)

lemma embed_calls_calls_at:
  "embed_calls (concat (map (calls_at self metadatas ids k g ps) js)) = map ((!) ps) js"
  by (induction js) (simp_all add: calls_at_def)

lemma commits_calls_at:
  "commits (concat (map (calls_at self metadatas ids k g ps) js)) = 0"
  by (induction js) (simp_all add: calls_at_def)

lemma new_calls_commit:
  "new_calls w (commit b (w\<lparr>generated := g, calls := calls w @ cs\<rparr>)) = cs @ [Batch_Commit]"
  by (simp add: new_calls_def commit_def)

lemma new_calls_commit_empty: "new_calls w (commit [] w) = [Batch_Commit]"
  by (simp add: new_calls_def commit_def)

lemma new_calls_same: "new_calls w w = []"
  by (simp add: new_calls_def)

lemma documents_commit:
  "documents (commit b w) = fold merge_write b (documents w)"
  by (simp add: commit_def)

lemma merge_write_pair:
  "merge_write (d, data) docs =
     docs(d \<mapsto> (case docs d of None \<Rightarrow> data | Some old \<Rightarrow> old ++ data))"
  by (simp add: merge_write_def)

lemma dom_merge_write: "dom (merge_write wr docs) = insert (fst wr) (dom docs)"
  by (cases wr) (simp add: merge_write_pair)

lemma dom_fold_merge_write:
  "dom (fold merge_write b docs) = dom docs \<union> fst ` set b"
  by (induction b arbitrary: docs) (auto simp add: dom_merge_write)


lemma fold_merge_write_frame:
  assumes "\<forall>wr \<in> set b. snd wr f = None" and "docs d = Some old"
  shows "\<exists>new. fold merge_write b docs d = Some new \<and> new f = old f"
  using assms
proof (induction b arbitrary: docs old)
  case Nil
  then show ?case by simp
next
  case (Cons wr b)
  obtain d' data where wr: "wr = (d', data)" by (cases wr)
  have f: "data f = None" using Cons.prems(1) wr by simp
  have "\<exists>old'. merge_write wr docs d = Some old' \<and> old' f = old f"
    using Cons.prems(2) f wr by (auto simp add: merge_write_pair map_add_def)
  then obtain old' where o: "merge_write wr docs d = Some old'" "old' f = old f" by blast
  have "\<forall>wr \<in> set b. snd wr f = None" using Cons.prems(1) by simp
  from Cons.IH[where docs = "merge_write wr docs" and old = old', OF this o(1)] o(2)
  show ?case by simp
qed

lemma fold_merge_write_field:
  assumes "\<forall>wr \<in> set b. \<exists>x. snd wr f = Some x \<and> P x"
      and "d \<in> fst ` set b \<or> (\<exists>doc x. docs d = Some doc \<and> doc f = Some x \<and> P x)"
  shows "\<exists>doc x. fold merge_write b docs d = Some doc \<and> doc f = Some x \<and> P x"
  using assms
proof (induction b arbitrary: docs)
  case Nil
  then show ?case by simp
next
  case (Cons wr b)
  obtain d' data where wr: "wr = (d', data)" by (cases wr)
  obtain x where x: "data f = Some x" "P x" using Cons.prems(1) wr by auto
  have rest: "\<forall>wr \<in> set b. \<exists>x. snd wr f = Some x \<and> P x" using Cons.prems(1) by simp
  have "d \<in> fst ` set b \<or> (\<exists>doc x. merge_write wr docs d = Some doc \<and> doc f = Some x \<and> P x)"
  proof (cases "d = d'")
    case True
    then show ?thesis using x wr
      by (auto simp add: merge_write_pair map_add_def split: option.splits)
  next
    case False
    then show ?thesis using Cons.prems(2) wr
      by (auto simp add: merge_write_pair)
  qed
  from Cons.IH[where docs = "merge_write wr docs", OF rest this] show ?case by simp
qed


subsection \<open>Runs over a sequence, and runs in general\<close>

lemma record_at_metadata:
  "record_at self metadatas i p (metadata_field self) =
     Some (if truthy metadatas then Metadata (items metadatas ! i) else Null)"
  by (simp add: record_at_def data_of_def)

lemma record_at_content:
  "content_field self \<noteq> embedding_field self \<Longrightarrow> content_field self \<noteq> metadata_field self \<Longrightarrow>
   record_at self metadatas i p (content_field self) = Some (Text [])"
  by (simp add: record_at_def data_of_def)


lemma record_at_other:
  "f \<noteq> content_field self \<Longrightarrow> f \<noteq> embedding_field self \<Longrightarrow> f \<noteq> metadata_field self \<Longrightarrow>
   record_at self metadatas i p f = None"
  by (simp add: record_at_def data_of_def)

lemma sequence_result:
  assumes "valid_lengths (length ps) metadatas ids"
  shows "fst (add_images self (Sequence ps) metadatas ids kwargs w) =
         Inr (map (pick self ids 0 (generated w)) [0..<length ps])"
  by (simp add: add_images_sequence[OF assms])

lemma sequence_new_calls:
  assumes "valid_lengths (length ps) metadatas ids"
  shows "new_calls w (snd (add_images self (Sequence ps) metadatas ids kwargs w)) =
         concat (map (calls_at self metadatas ids 0 (generated w) ps) [0..<length ps]) @
         [Batch_Commit]"
  by (simp add: add_images_sequence[OF assms] new_calls_commit)

lemma sequence_documents:
  assumes "valid_lengths (length ps) metadatas ids"
  shows "documents (snd (add_images self (Sequence ps) metadatas ids kwargs w)) =
         fold merge_write (map (write_at self metadatas ids 0 (generated w) ps) [0..<length ps])
           (documents w)"
  by (simp add: add_images_sequence[OF assms] documents_commit)

lemma sequence_staged:
  assumes "valid_lengths (length ps) metadatas ids"
  shows "staged (new_calls w (snd (add_images self (Sequence ps) metadatas ids kwargs w))) =
         map (write_at self metadatas ids 0 (generated w) ps) [0..<length ps]"
  by (simp add: sequence_new_calls[OF assms] staged_append staged_calls_at)

lemma sequence_embed_calls:
  assumes "valid_lengths (length ps) metadatas ids"
  shows "embed_calls (new_calls w (snd (add_images self (Sequence ps) metadatas ids kwargs w))) = ps"
  by (simp add: sequence_new_calls[OF assms] embed_calls_append embed_calls_calls_at map_nth)

lemma sequence_commits:
  assumes "valid_lengths (length ps) metadatas ids"
  shows "commits (new_calls w (snd (add_images self (Sequence ps) metadatas ids kwargs w))) = 1"
  by (simp add: sequence_new_calls[OF assms] commits_append commits_calls_at)

lemma add_images_documents:
  "documents (snd (add_images self image_paths metadatas ids kwargs w)) =
   fold merge_write (staged (new_calls w (snd (add_images self image_paths metadatas ids kwargs w))))
     (documents w)"
proof (cases "valid_lengths (length (yields image_paths)) metadatas ids")
  case False
  from add_images_invalid[OF False, of self kwargs w]
  obtain msg where
    "add_images self image_paths metadatas ids kwargs w = (Inl (ValueError msg), w)"
    by blast
  then show ?thesis by (simp add: new_calls_same)
next
  case True
  show ?thesis
  proof (cases image_paths)
    case (Sequence ps)
    then have v: "valid_lengths (length ps) metadatas ids" using True by simp
    show ?thesis unfolding Sequence
      by (simp only: sequence_documents[OF v] sequence_staged[OF v])
  next
    case (Iterator ps)
    then have v: "valid_lengths (length ps) metadatas ids" using True by simp
    show ?thesis unfolding Iterator
      by (simp add: add_images_iterator[OF v] new_calls_commit_empty documents_commit)
  qed
qed

lemma add_images_returned:
  assumes "fst (add_images self image_paths metadatas ids kwargs w) = Inr out"
  shows "map fst (staged (new_calls w (snd (add_images self image_paths metadatas ids kwargs w)))) = out"
proof (cases "valid_lengths (length (yields image_paths)) metadatas ids")
  case False
  from add_images_invalid[OF False, of self kwargs w]
  obtain msg where
    "add_images self image_paths metadatas ids kwargs w = (Inl (ValueError msg), w)"
    by blast
  then show ?thesis using assms by simp
next
  case True
  show ?thesis
  proof (cases image_paths)
    case (Sequence ps)
    then have v: "valid_lengths (length ps) metadatas ids" using True by simp
    show ?thesis using assms unfolding Sequence
      by (simp add: sequence_result[OF v] sequence_staged[OF v] write_at_def comp_def)
  next
    case (Iterator ps)
    then have v: "valid_lengths (length ps) metadatas ids" using True by simp
    show ?thesis using assms unfolding Iterator
      by (simp add: add_images_iterator[OF v] new_calls_commit_empty)
  qed
qed

lemma add_images_staged_records:
  assumes "wr \<in> set (staged (new_calls w (snd (add_images self image_paths metadatas ids kwargs w))))"
  shows "\<exists>i p. snd wr = record_at self metadatas i p"
proof (cases "valid_lengths (length (yields image_paths)) metadatas ids")
  case False
  from add_images_invalid[OF False, of self kwargs w]
  obtain msg where
    "add_images self image_paths metadatas ids kwargs w = (Inl (ValueError msg), w)"
    by blast
  then show ?thesis using assms by (simp add: new_calls_same)
next
  case True
  show ?thesis
  proof (cases image_paths)
    case (Sequence ps)
    then have v: "valid_lengths (length ps) metadatas ids" using True by simp
    show ?thesis using assms unfolding Sequence
      by (auto simp add: sequence_staged[OF v] write_at_def) blast
  next
    case (Iterator ps)
    then have v: "valid_lengths (length ps) metadatas ids" using True by simp
    show ?thesis using assms unfolding Iterator
      by (simp add: add_images_iterator[OF v] new_calls_commit_empty)
  qed
qed

text \<open>
  A run over a sequence of locators that passes the checks embeds each image once, in
  input order, stages one write per image and commits once, as its last call.
\<close>

lemma add_images_sequence_call_order:
  assumes "valid_lengths (length ps) metadatas ids"
  shows "embed_calls (new_calls w (snd (add_images self (Sequence ps) metadatas ids kwargs w))) = ps"
    and "length (staged (new_calls w (snd (add_images self (Sequence ps) metadatas ids kwargs w)))) =
         length ps"
    and "commits (new_calls w (snd (add_images self (Sequence ps) metadatas ids kwargs w))) = 1"
    and "last (new_calls w (snd (add_images self (Sequence ps) metadatas ids kwargs w))) =
         Batch_Commit"
proof -
  show "embed_calls (new_calls w (snd (add_images self (Sequence ps) metadatas ids kwargs w))) = ps"
    by (rule sequence_embed_calls[OF assms])
  show "length (staged (new_calls w (snd (add_images self (Sequence ps) metadatas ids kwargs w)))) =
        length ps"
    by (simp add: sequence_staged[OF assms])
  show "commits (new_calls w (snd (add_images self (Sequence ps) metadatas ids kwargs w))) = 1"
    by (rule sequence_commits[OF assms])
  show "last (new_calls w (snd (add_images self (Sequence ps) metadatas ids kwargs w))) =
        Batch_Commit"
    by (simp add: sequence_new_calls[OF assms])
qed

text \<open>The definitions that evaluate a run on a concrete input.\<close>

lemmas run_defs = add_images_def list_py_def len_def document_def data_of_def subscript_def
  commit_def new_calls_def merge_write_pair demo_store_def demo_world_def demo_world_d1_def
  field_of_def staged_field_def Let_def

subsection \<open>Rejected input\<close>

text \<open>
  Claim C2. \<^verbatim>\<open>add_images\<close> raises a rejected-input error (a \<^verbatim>\<open>ValueError\<close> with a
  message) if and only if zero images are supplied, or the metadata list is non-empty and
  its length differs from the image count, or the id list is non-empty and its length
  differs from the image count. Whenever the method raises, the error is such a
  \<^verbatim>\<open>ValueError\<close> and the world is the one the call started in: no embedding call has been
  made, no write has been staged, no document has been created.
\<close>

theorem add_images_rejects_iff:
  "((\<exists>msg. fst (add_images self image_paths metadatas ids kwargs w) = Inl (ValueError msg)) \<longleftrightarrow>
      (length (yields image_paths) = 0
       \<or> (truthy metadatas \<and> len metadatas \<noteq> length (yields image_paths))
       \<or> (truthy ids \<and> len ids \<noteq> length (yields image_paths))))
   \<and> (\<forall>e. fst (add_images self image_paths metadatas ids kwargs w) = Inl e \<longrightarrow>
         (\<exists>msg. e = ValueError msg) \<and>
         snd (add_images self image_paths metadatas ids kwargs w) = w)"
proof (cases "valid_lengths (length (yields image_paths)) metadatas ids")
  case True
  from add_images_valid_returns[OF True, of self kwargs w]
  obtain out where "fst (add_images self image_paths metadatas ids kwargs w) = Inr out"
    by blast
  then show ?thesis using True by (auto simp add: valid_lengths_def)
next
  case False
  from add_images_invalid[OF False, of self kwargs w]
  obtain msg where
    "add_images self image_paths metadatas ids kwargs w = (Inl (ValueError msg), w)"
    by blast
  then show ?thesis using False by (auto simp add: valid_lengths_def)
qed

text \<open>
  Two locators with one metadata mapping: the call raises the metadata error, and by the
  theorem the world is unchanged.
\<close>

theorem add_images_rejects_iff_witness:
  "fst (add_images demo_store (Sequence [''a.png'', ''b.png'']) (Some [ [(''k'', ''v'')] ]) None ()
          demo_world) =
     Inl (ValueError
       ''The length of metadatas must be the same as the length of images or zero.'')
   \<and> snd (add_images demo_store (Sequence [''a.png'', ''b.png'']) (Some [ [(''k'', ''v'')] ]) None ()
          demo_world) = demo_world"
proof -
  have e: "fst (add_images demo_store (Sequence [''a.png'', ''b.png''])
                  (Some [ [(''k'', ''v'')] ]) None () demo_world) =
           Inl (ValueError
             ''The length of metadatas must be the same as the length of images or zero.'')"
    by (simp add: add_images_def list_py_def len_def)
  show ?thesis
    using e add_images_rejects_iff[of demo_store "Sequence [''a.png'', ''b.png'']"
        "Some [ [(''k'', ''v'')] ]" None "()" demo_world]
    by blast
qed

text \<open>
  Claim C9. The errors have a fixed precedence. With zero images the empty-input error is
  raised, whatever the metadata and id lists are; with at least one image and a non-empty
  metadata list of another length the metadata error is raised, whatever the id list is.
\<close>

theorem add_images_error_precedence:
  "(length (yields image_paths) = 0 \<longrightarrow>
      fst (add_images self image_paths metadatas ids kwargs w) =
        Inl (ValueError ''No images provided to add to the vector store.''))
   \<and> (length (yields image_paths) \<noteq> 0 \<and> truthy metadatas \<and>
        len metadatas \<noteq> length (yields image_paths) \<longrightarrow>
      fst (add_images self image_paths metadatas ids kwargs w) =
        Inl (ValueError
          ''The length of metadatas must be the same as the length of images or zero.''))"
  by (simp add: add_images_empty add_images_metadatas_mismatch)

text \<open>
  No image with both lists non-empty, and one image with both lists of length two.
\<close>

theorem add_images_error_precedence_witness:
  "fst (add_images demo_store (Sequence []) (Some [ [(''k'', ''v'')] ]) (Some [''d1'']) ()
          demo_world) =
     Inl (ValueError ''No images provided to add to the vector store.'')
   \<and> fst (add_images demo_store (Sequence [''a.png''])
            (Some [ [(''k'', ''v'')], [] ]) (Some [''d1'', ''d2'']) () demo_world) =
     Inl (ValueError
       ''The length of metadatas must be the same as the length of images or zero.'')"
proof -
  have h1: "length (yields (Sequence ([] :: locator list))) = 0"
    by simp
  have h2: "length (yields (Sequence [''a.png''])) \<noteq> 0 \<and>
            truthy (Some [ [(''k'', ''v'')], [] ]) \<and>
            len (Some [ [(''k'', ''v'')], [] ]) \<noteq> length (yields (Sequence [''a.png'']))"
    by (simp add: len_def)
  show ?thesis
    using h1 h2
      add_images_error_precedence[of "Sequence []" demo_store
        "Some [ [(''k'', ''v'')] ]" "Some [''d1'']" "()" demo_world]
      add_images_error_precedence[of "Sequence [''a.png'']" demo_store
        "Some [ [(''k'', ''v'')], [] ]" "Some [''d1'', ''d2'']" "()" demo_world]
    by blast
qed

subsection \<open>Extension options\<close>

text \<open>
  Claim C10. The keyword arguments have no effect: two calls that agree on the image
  locators, the metadata and the ids, and differ in \<^verbatim>\<open>**kwargs\<close> in any way, give the
  same result and the same world, hence the same staged writes and returned ids.
\<close>

theorem add_images_kwargs_irrelevant:
  "add_images self image_paths metadatas ids kwargs w =
   add_images self image_paths metadatas ids kwargs' w"
  by (simp add: add_images_def)

theorem add_images_kwargs_irrelevant_witness:
  "add_images demo_store (Sequence [''a.png'']) None None [(''timeout'', 3 :: nat)] demo_world =
   add_images demo_store (Sequence [''a.png'']) None None () demo_world"
  using add_images_kwargs_irrelevant[of demo_store "Sequence [''a.png'']" None None
      "[(''timeout'', 3 :: nat)]" demo_world "()"]
  by simp

subsection \<open>One-shot iterators\<close>

text \<open>
  Claim C1. The claim: for every iterable yielding \<open>n \<ge> 1\<close> images, with valid
  optional lists, the method stages one write per image, commits, and returns \<open>n\<close>
  identifiers. The code at a one-shot iterator: \<^verbatim>\<open>len(list(image_paths))\<close> consumes it,
  the loop then finds it empty, and the call returns the empty list, having staged no write
  and left the documents as they were.
\<close>

theorem add_images_iterator_stages_nothing:
  assumes "valid_lengths (length ps) metadatas ids"
  shows "fst (add_images self (Iterator ps) metadatas ids kwargs w) = Inr []
       \<and> staged (new_calls w (snd (add_images self (Iterator ps) metadatas ids kwargs w))) = []
       \<and> documents (snd (add_images self (Iterator ps) metadatas ids kwargs w)) = documents w"
  by (simp add: add_images_iterator[OF assms] new_calls_commit_empty documents_commit)

theorem add_images_iterator_stages_nothing_witness:
  "fst (add_images demo_store (Iterator [''a.png'']) None None () demo_world) = Inr []
   \<and> staged (new_calls demo_world
        (snd (add_images demo_store (Iterator [''a.png'']) None None () demo_world))) = []"
proof -
  have v: "valid_lengths (length [''a.png'']) (None :: (string \<times> string) list list option) None"
    by (simp add: valid_lengths_def)
  show ?thesis
    using add_images_iterator_stages_nothing[OF v, where self = demo_store and kwargs = "()"
        and w = demo_world]
    by simp
qed

text \<open>
  Claim C8. The claim: a successful call makes one embedding call per image, in input
  order, and one commit after all writes. The code at a one-shot iterator that yields
  \<open>n \<ge> 1\<close> images: the call succeeds, makes no embedding call at all, and its only
  call is the commit. (For a sequence the claim holds: \<open>add_images_sequence_call_order\<close>.)
\<close>

theorem add_images_iterator_embeds_nothing:
  assumes "valid_lengths (length ps) metadatas ids"
  shows "fst (add_images self (Iterator ps) metadatas ids kwargs w) = Inr []
       \<and> embed_calls (new_calls w (snd (add_images self (Iterator ps) metadatas ids kwargs w))) = []
       \<and> new_calls w (snd (add_images self (Iterator ps) metadatas ids kwargs w)) = [Batch_Commit]"
  by (simp add: add_images_iterator[OF assms] new_calls_commit_empty)

theorem add_images_iterator_embeds_nothing_witness:
  "fst (add_images demo_store (Iterator [''a.png'', ''b.png'']) None None () demo_world) = Inr []
   \<and> embed_calls (new_calls demo_world
        (snd (add_images demo_store (Iterator [''a.png'', ''b.png'']) None None () demo_world))) = []"
proof -
  have v: "valid_lengths (length [''a.png'', ''b.png''])
             (None :: (string \<times> string) list list option) None"
    by (simp add: valid_lengths_def)
  show ?thesis
    using add_images_iterator_embeds_nothing[OF v, where self = demo_store and kwargs = "()"
        and w = demo_world]
    by simp
qed

subsection \<open>Lists of locators\<close>

text \<open>
  Claim C4. For every non-empty list of image locators with no metadata list and no id
  list supplied (\<^verbatim>\<open>None\<close>, or the empty list, which the method treats alike), the
  method returns a list of ids as long as the list of images; these are, in order, the
  ids of the writes it staged, the batch is committed once, and every returned id is the
  id of a document of the collection afterwards.
\<close>

theorem add_images_list_returns_written_ids:
  assumes "ps \<noteq> []" and "\<not> truthy metadatas" and "\<not> truthy ids"
  shows "\<exists>out. fst (add_images self (Sequence ps) metadatas ids kwargs w) = Inr out
           \<and> length out = length ps
           \<and> map fst (staged (new_calls w
                (snd (add_images self (Sequence ps) metadatas ids kwargs w)))) = out
           \<and> commits (new_calls w (snd (add_images self (Sequence ps) metadatas ids kwargs w))) = 1
           \<and> set out \<subseteq> dom (documents (snd (add_images self (Sequence ps) metadatas ids kwargs w)))"
proof -
  have v: "valid_lengths (length ps) metadatas ids"
    using assms by (simp add: valid_lengths_def)
  let ?r = "add_images self (Sequence ps) metadatas ids kwargs w"
  let ?out = "map (pick self ids 0 (generated w)) [0..<length ps]"
  have r: "fst ?r = Inr ?out" by (rule sequence_result[OF v])
  have st: "map fst (staged (new_calls w (snd ?r))) = ?out"
    by (rule add_images_returned[OF r])
  have "dom (documents (snd ?r)) = dom (documents w) \<union> set ?out"
    by (simp only: add_images_documents[of self "Sequence ps" metadatas ids kwargs w]
        dom_fold_merge_write set_map[symmetric] st)
  then have "set ?out \<subseteq> dom (documents (snd ?r))" by blast
  then show ?thesis
    using r st sequence_commits[OF v, where self = self and kwargs = kwargs and w = w] by simp
qed

theorem add_images_list_returns_written_ids_witness:
  "fst (add_images demo_store (Sequence [''a.png'', ''bb.png'']) None None () demo_world) =
     Inr [''a'', ''aa'']
   \<and> map fst (staged (new_calls demo_world
        (snd (add_images demo_store (Sequence [''a.png'', ''bb.png'']) None None () demo_world)))) =
     [''a'', ''aa'']
   \<and> commits (new_calls demo_world
        (snd (add_images demo_store (Sequence [''a.png'', ''bb.png'']) None None () demo_world))) = 1
   \<and> {''a'', ''aa''} \<subseteq> dom (documents
        (snd (add_images demo_store (Sequence [''a.png'', ''bb.png'']) None None () demo_world)))"
proof -
  have e: "fst (add_images demo_store (Sequence [''a.png'', ''bb.png''])
                  (None :: (string \<times> string) list list option) None () demo_world) =
           Inr [''a'', ''aa'']"
    by (simp add: run_defs)
  have h: "[''a.png'', ''bb.png''] \<noteq> []"
      "\<not> truthy (None :: (string \<times> string) list list option)"
      "\<not> truthy (None :: doc_id list option)"
    by simp_all
  show ?thesis
    using e add_images_list_returns_written_ids[OF h, where self = demo_store and kwargs = "()"
        and w = demo_world]
    by auto
qed

text \<open>
  Claim C5, as stated, fails where the image count is zero: with an empty id list and an
  empty metadata list, both of matching length, the call raises and returns nothing.
\<close>

theorem add_images_empty_with_ids_raises:
  "fst (add_images demo_store (Sequence []) (Some []) (Some []) () demo_world) =
     Inl (ValueError ''No images provided to add to the vector store.'')"
  by (simp add: run_defs)

text \<open>
  Claim C5, amended. For every call with a list of \<open>n \<ge> 1\<close> image locators, an id
  list of length \<open>n\<close> and a metadata list of length \<open>n\<close>, the returned id list is
  the supplied id list, the staged writes go to these ids in order, and the record staged
  for position \<open>i\<close> carries the \<open>i\<close>-th supplied metadata mapping as its metadata
  field.
\<close>

theorem add_images_supplied_ids_and_metadata:
  assumes "ps \<noteq> []" and "length xs = length ps" and "length ms = length ps"
  shows "fst (add_images self (Sequence ps) (Some ms) (Some xs) kwargs w) = Inr xs
       \<and> map fst (staged (new_calls w
            (snd (add_images self (Sequence ps) (Some ms) (Some xs) kwargs w)))) = xs
       \<and> staged_field (metadata_field self) (new_calls w
            (snd (add_images self (Sequence ps) (Some ms) (Some xs) kwargs w))) =
          map (\<lambda>m. Some (Metadata m)) ms"
proof -
  have v: "valid_lengths (length ps) (Some ms) (Some xs)"
    using assms by (simp add: valid_lengths_def len_def)
  have tx: "truthy (Some xs)" and tm: "truthy (Some ms)" using assms by auto
  let ?r = "add_images self (Sequence ps) (Some ms) (Some xs) kwargs w"
  have "map (pick self (Some xs) 0 (generated w)) [0..<length ps] = map ((!) xs) [0..<length xs]"
    using tx assms(2) by (simp add: pick_def)
  then have out: "map (pick self (Some xs) 0 (generated w)) [0..<length ps] = xs"
    by (simp add: map_nth)
  have r: "fst ?r = Inr xs" using sequence_result[OF v, where self = self and kwargs = kwargs and w = w] out by simp
  have st: "map fst (staged (new_calls w (snd ?r))) = xs" by (rule add_images_returned[OF r])
  have "staged_field (metadata_field self) (new_calls w (snd ?r)) =
        map (\<lambda>j. Some (Metadata (ms ! j))) [0..<length ms]"
    using tm assms(3)
    by (simp add: staged_field_def sequence_staged[OF v] write_at_def record_at_metadata comp_def)
  also have "\<dots> = map (\<lambda>m. Some (Metadata m)) (map ((!) ms) [0..<length ms])"
    by (simp add: comp_def)
  also have "\<dots> = map (\<lambda>m. Some (Metadata m)) ms" by (simp only: map_nth)
  finally show ?thesis using r st by simp
qed

theorem add_images_supplied_ids_and_metadata_witness:
  "fst (add_images demo_store (Sequence [''a.png'', ''bb.png''])
          (Some [ [(''k'', ''v1'')], [(''k'', ''v2'')] ]) (Some [''d1'', ''d2'']) () demo_world) =
     Inr [''d1'', ''d2'']
   \<and> staged_field ''metadata'' (new_calls demo_world
        (snd (add_images demo_store (Sequence [''a.png'', ''bb.png''])
          (Some [ [(''k'', ''v1'')], [(''k'', ''v2'')] ]) (Some [''d1'', ''d2'']) () demo_world))) =
     [Some (Metadata [(''k'', ''v1'')]), Some (Metadata [(''k'', ''v2'')])]"
proof -
  have h: "[''a.png'', ''bb.png''] \<noteq> []"
      "length [''d1'', ''d2''] = length [''a.png'', ''bb.png'']"
      "length [ [(''k'', ''v1'')], [(''k'', ''v2'')] ] = length [''a.png'', ''bb.png'']"
    by simp_all
  have m: "metadata_field demo_store = ''metadata''" by (simp add: demo_store_def)
  show ?thesis
    using add_images_supplied_ids_and_metadata[OF h, where self = demo_store and kwargs = "()"
        and w = demo_world] m
    by simp
qed




subsection \<open>The staged records\<close>

text \<open>
  Claim C7, as stated, fails where the metadata field is configured with the name of the
  content field: the metadata entry, stored last, replaces the empty string.
\<close>

theorem add_images_content_replaced:
  "content_field (demo_store\<lparr>metadata_field := ''content''\<rparr>) = ''content''
   \<and> staged_field ''content'' (new_calls demo_world
        (snd (add_images (demo_store\<lparr>metadata_field := ''content''\<rparr>) (Sequence [''a.png''])
           None None () demo_world))) = [Some Null]"
  by (simp add: run_defs)

text \<open>
  Claim C7, amended. On a store whose content field name differs from the embedding field
  name and from the metadata field name, every record the method stages has the empty
  string as its content field, whatever the images, the metadata and the ids are.
\<close>

theorem add_images_content_empty:
  assumes "content_field self \<noteq> embedding_field self"
      and "content_field self \<noteq> metadata_field self"
  shows "\<forall>wr \<in> set (staged (new_calls w (snd (add_images self image_paths metadatas ids kwargs w)))).
           snd wr (content_field self) = Some (Text [])"
proof
  fix wr
  assume "wr \<in> set (staged (new_calls w (snd (add_images self image_paths metadatas ids kwargs w))))"
  from add_images_staged_records[OF this]
  obtain i p where "snd wr = record_at self metadatas i p" by blast
  then show "snd wr (content_field self) = Some (Text [])"
    using assms by (simp add: record_at_content)
qed

theorem add_images_content_empty_witness:
  "staged_field ''content'' (new_calls demo_world
       (snd (add_images demo_store (Sequence [''a.png'', ''bb.png'']) None None () demo_world))) =
     [Some (Text []), Some (Text [])]"
proof -
  let ?b = "staged (new_calls demo_world
       (snd (add_images demo_store (Sequence [''a.png'', ''bb.png''])
          (None :: (string \<times> string) list list option) None () demo_world)))"
  have h: "content_field demo_store \<noteq> embedding_field demo_store"
      "content_field demo_store \<noteq> metadata_field demo_store"
    by (simp_all add: demo_store_def)
  have c: "content_field demo_store = ''content''" by (simp add: demo_store_def)
  have "map fst ?b = [''a'', ''aa'']" by (simp add: run_defs)
  then have "length (map fst ?b) = 2" by simp
  then have n: "length ?b = 2" by simp
  have "\<forall>wr \<in> set ?b. snd wr ''content'' = Some (Text [])"
    using add_images_content_empty[OF h, where w = demo_world and kwargs = "()"
        and image_paths = "Sequence [''a.png'', ''bb.png'']" and metadatas = None and ids = None] c
    by simp
  then have "map (\<lambda>wr. snd wr ''content'') ?b = map (\<lambda>wr. Some (Text [])) ?b"
    by simp
  also have "\<dots> = replicate (length ?b) (Some (Text []))" by (rule map_replicate_const)
  finally show ?thesis using n by (simp add: staged_field_def numeral_2_eq_2)
qed

text \<open>
  Claim C3, as stated, fails: with no metadata supplied the staged record sets the
  metadata field, to \<^verbatim>\<open>None\<close>, and the merge replaces the metadata of the document
  that was there.
\<close>

theorem add_images_metadata_overwritten:
  "field_of demo_world_d1 ''d1'' ''metadata'' = Some (Metadata [(''k'', ''v'')])
   \<and> staged_field ''metadata'' (new_calls demo_world_d1
        (snd (add_images demo_store (Sequence [''a.png'']) None (Some [''d1'']) () demo_world_d1))) =
      [Some Null]
   \<and> field_of (snd (add_images demo_store (Sequence [''a.png'']) None (Some [''d1'']) ()
        demo_world_d1)) ''d1'' ''metadata'' = Some Null"
  by (simp add: run_defs)

text \<open>
  Claim C3, amended. For every call in which no metadata list is supplied
  (\<^verbatim>\<open>None\<close> or the empty list), each staged record sets the metadata field to the null
  value; every field of a pre-existing document other than the content, embedding and
  metadata fields is preserved by the commit; and the metadata field of the document at
  every returned id is null afterwards.
\<close>

theorem add_images_without_metadata:
  assumes "\<not> truthy metadatas"
  shows "(\<forall>wr \<in> set (staged (new_calls w (snd (add_images self image_paths metadatas ids kwargs w)))).
            snd wr (metadata_field self) = Some Null)
       \<and> (\<forall>d old f. documents w d = Some old \<longrightarrow> f \<noteq> content_field self \<longrightarrow>
              f \<noteq> embedding_field self \<longrightarrow> f \<noteq> metadata_field self \<longrightarrow>
              (\<exists>new. documents (snd (add_images self image_paths metadatas ids kwargs w)) d = Some new
                     \<and> new f = old f))
       \<and> (\<forall>out d. fst (add_images self image_paths metadatas ids kwargs w) = Inr out \<longrightarrow>
              d \<in> set out \<longrightarrow>
              field_of (snd (add_images self image_paths metadatas ids kwargs w)) d
                (metadata_field self) = Some Null)"
proof -
  let ?r = "add_images self image_paths metadatas ids kwargs w"
  let ?b = "staged (new_calls w (snd ?r))"
  have docs: "documents (snd ?r) = fold merge_write ?b (documents w)"
    by (rule add_images_documents)
  have md: "snd wr (metadata_field self) = Some Null" if "wr \<in> set ?b" for wr
  proof -
    from add_images_staged_records[OF that]
    obtain i p where "snd wr = record_at self metadatas i p" by blast
    then show ?thesis using assms by (simp add: record_at_metadata)
  qed
  have frame: "\<exists>new. documents (snd ?r) d = Some new \<and> new f = old f"
    if "documents w d = Some old" "f \<noteq> content_field self" "f \<noteq> embedding_field self"
       "f \<noteq> metadata_field self" for d old f
  proof -
    have "\<forall>wr \<in> set ?b. snd wr f = None"
    proof
      fix wr assume "wr \<in> set ?b"
      from add_images_staged_records[OF this]
      obtain i p where "snd wr = record_at self metadatas i p" by blast
      then show "snd wr f = None" using that by (simp add: record_at_other)
    qed
    from fold_merge_write_frame[where docs = "documents w" and d = d and old = old, OF this that(1)]
    show ?thesis by (simp only: docs)
  qed
  have stored: "field_of (snd ?r) d (metadata_field self) = Some Null"
    if "fst ?r = Inr out" "d \<in> set out" for out d
  proof -
    have "map fst ?b = out" by (rule add_images_returned[OF that(1)])
    then have "d \<in> fst ` set ?b" using that(2) by auto
    then have "d \<in> fst ` set ?b \<or>
        (\<exists>doc x. documents w d = Some doc \<and> doc (metadata_field self) = Some x \<and> x = Null)"
      by blast
    moreover have "\<forall>wr \<in> set ?b. \<exists>x. snd wr (metadata_field self) = Some x \<and> x = Null"
      using md by simp
    ultimately have "\<exists>doc x. fold merge_write ?b (documents w) d = Some doc \<and>
        doc (metadata_field self) = Some x \<and> x = Null"
      using fold_merge_write_field[where b = "?b" and f = "metadata_field self"
          and P = "\<lambda>x. x = Null" and d = d and docs = "documents w"]
      by blast
    then show ?thesis by (auto simp add: field_of_def docs)
  qed
  show ?thesis using md frame stored by blast
qed

theorem add_images_without_metadata_witness:
  "field_of (snd (add_images demo_store (Sequence [''a.png'']) None (Some [''d1'']) ()
        demo_world_d1)) ''d1'' ''owner'' = Some (Text ''me'')
   \<and> field_of (snd (add_images demo_store (Sequence [''a.png'']) None (Some [''d1'']) ()
        demo_world_d1)) ''d1'' ''metadata'' = Some Null"
proof -
  let ?r = "add_images demo_store (Sequence [''a.png''])
              (None :: (string \<times> string) list list option) (Some [''d1'']) () demo_world_d1"
  have h: "\<not> truthy (None :: (string \<times> string) list list option)" by simp
  have e: "fst ?r = Inr [''d1'']" by (simp add: run_defs)
  have o: "documents demo_world_d1 ''d1'' =
      Some [''metadata'' \<mapsto> Metadata [(''k'', ''v'')], ''owner'' \<mapsto> Text ''me'']"
    by (simp add: demo_world_d1_def)
  have f: "''owner'' \<noteq> content_field demo_store" "''owner'' \<noteq> embedding_field demo_store"
      "''owner'' \<noteq> metadata_field demo_store" "metadata_field demo_store = ''metadata''"
    by (simp_all add: demo_store_def)
  note t = add_images_without_metadata[OF h, where self = demo_store and kwargs = "()"
      and w = demo_world_d1 and image_paths = "Sequence [''a.png'']" and ids = "Some [''d1'']"]
  from t have "\<exists>new. documents (snd ?r) ''d1'' = Some new \<and>
      new ''owner'' = [''metadata'' \<mapsto> Metadata [(''k'', ''v'')], ''owner'' \<mapsto> Text ''me''] ''owner''"
    using o f(1-3) by blast
  then have a: "field_of (snd ?r) ''d1'' ''owner'' = Some (Text ''me'')"
    by (auto simp add: field_of_def)
  from t have "field_of (snd ?r) ''d1'' (metadata_field demo_store) = Some Null"
    using e by simp
  then show ?thesis using a f(4) by simp
qed

end
